theory Spec2Isabelle
  imports Complex_Main
begin

section \<open>The search space of rrt\_algorithms\<close>

text \<open>
  A shallow embedding of \<^verbatim>\<open>rrt_algorithms/search_space/search_space.py\<close>: the class
  \<^verbatim>\<open>SearchSpace\<close> (the bounded sampling domain) and the class \<^verbatim>\<open>ObstacleRtree\<close> (the
  obstacle set behind a spatial index).

  Coordinates are Python floats; they are modelled as \<^typ>\<open>real\<close>, so rounding and NaN
  are outside the model. A point is a tuple of coordinates, a list here.
\<close>

type_synonym point = "real list"

text \<open>
  Every \<^verbatim>\<open>raise\<close> of the file raises the plain Python \<^verbatim>\<open>Exception\<close> with a message; the
  message is what tells the raises apart, so the model keeps it. \<open>DimensionMismatch\<close> is
  not raised by the file itself: it is the spatial index refusing a query whose
  coordinate count is not the index's dimension.
\<close>

datatype error = Exception string | DimensionMismatch

subsection \<open>SearchSpace\<close>

text \<open>
  The object that \<^verbatim>\<open>SearchSpace.__init__\<close> fills in. The two predicates are stored as
  they are given; the type of the second is left open, since the class never calls it.
\<close>

record 'c SearchSpace =
  dimensions :: nat
  dimension_lengths :: "real list list"
  obstacle_free :: "point \<Rightarrow> bool"
  collision_free :: 'c

text \<open>
  \<^verbatim>\<open>
  if len(dimension_lengths) < 2:
      raise Exception("Must have at least 2 dimensions")
  self.dimensions = len(dimension_lengths)
  if any(len(i) != 2 for i in dimension_lengths):
      raise Exception("Dimensions can only have a start and end")
  if any(i[0] >= i[1] for i in dimension_lengths):
      raise Exception("Dimension start must be less than dimension end")
  self.dimension_lengths = dimension_lengths
  self.obstacle_free = obstacle_free
  self.collision_free = collision_free
  \<close>
  The third check reads \<^verbatim>\<open>i[0]\<close> and \<^verbatim>\<open>i[1]\<close> only after the second has passed, so
  both reads are in range.
\<close>

definition SearchSpace_init ::
  "real list list \<Rightarrow> (point \<Rightarrow> bool) \<Rightarrow> 'c \<Rightarrow> error + 'c SearchSpace" where
  "SearchSpace_init dls ofree cfree =
     (if length dls < 2 then Inl (Exception ''Must have at least 2 dimensions'')
      else if list_ex (\<lambda>i. length i \<noteq> 2) dls
        then Inl (Exception ''Dimensions can only have a start and end'')
      else if list_ex (\<lambda>i. i ! 0 \<ge> i ! 1) dls
        then Inl (Exception ''Dimension start must be less than dimension end'')
      else Inr \<lparr>dimensions = length dls, dimension_lengths = dls,
                obstacle_free = ofree, collision_free = cfree\<rparr>)"

text \<open>The specification's names for the three construction failures.\<close>

definition InvalidDimensionError :: error where
  "InvalidDimensionError = Exception ''Must have at least 2 dimensions''"

definition MalformedBoundError :: error where
  "MalformedBoundError = Exception ''Dimensions can only have a start and end''"

definition DegenerateBoundError :: error where
  "DegenerateBoundError = Exception ''Dimension start must be less than dimension end''"

text \<open>
  \<^verbatim>\<open>a[:, j]\<close> on the two-dimensional array of bounds: column \<open>j\<close>, one entry per
  axis. In a constructed space every row has two entries, so both columns exist.
\<close>

definition column :: "real list list \<Rightarrow> nat \<Rightarrow> real list" where
  "column a j = map (\<lambda>i. i ! j) a"

text \<open>
  Modelled from the spec: numpy's \<^verbatim>\<open>np.random.uniform(low, high)\<close> on two arrays, which
  is not part of the sources. The specification has one draw per axis from the uniform
  distribution between that axis's bounds, independently across axes, from a
  process-wide random source. The source of randomness is made explicit: \<open>rng\<close> is the
  generator's stream of unit variates (values in \<open>[0, 1)\<close>) and \<open>n\<close> the position the
  generator has reached; a draw for the axis \<open>k\<close> consumes the variate \<open>n + k\<close> and maps it
  affinely onto the axis, \<open>low + (high - low) * u\<close>, and the call returns the new
  position with the array.
\<close>

definition np_random_uniform ::
  "real list \<Rightarrow> real list \<Rightarrow> (nat \<Rightarrow> real) \<Rightarrow> nat \<Rightarrow> real list \<times> nat" where
  "np_random_uniform low high rng n =
     (map (\<lambda>k. low ! k + (high ! k - low ! k) * rng (n + k)) [0..<length low],
      n + length low)"

text \<open>
  \<^verbatim>\<open>
  x = np.random.uniform(self.dimension_lengths[:, 0], self.dimension_lengths[:, 1])
  return tuple(x)
  \<close>
\<close>

definition sample :: "'c SearchSpace \<Rightarrow> (nat \<Rightarrow> real) \<Rightarrow> nat \<Rightarrow> point \<times> nat" where
  "sample X rng n =
     np_random_uniform (column (dimension_lengths X) 0) (column (dimension_lengths X) 1) rng n"

text \<open>
  \<^verbatim>\<open>
  while True:
      x = self.sample()
      if self.obstacle_free(x):
          return x
  \<close>
  The loop has no bound, so the model is a partial function: \<open>None\<close> is the call that
  never returns. A call that returns gives the point and the position the generator
  has reached.
\<close>

partial_function (option) sample_free ::
  "'c SearchSpace \<Rightarrow> (nat \<Rightarrow> real) \<Rightarrow> nat \<Rightarrow> (point \<times> nat) option" where
  "sample_free X rng n =
     (case sample X rng n of
        (x, n') \<Rightarrow> if obstacle_free X x then Some (x, n') else sample_free X rng n')"

subsection \<open>The spatial index\<close>

text \<open>
  Modelled from the spec: the spatial index of the \<^verbatim>\<open>rtree\<close> library
  (\<^verbatim>\<open>index.Index\<close>, \<^verbatim>\<open>index.Property\<close>), which is not part of the sources. The
  specification asks of it a dimension fixed at construction, bulk construction from a
  set of axis-aligned rectangles, and a query that counts the rectangles containing a
  point; a rectangle is the region given by the bounds \<open>[low, high]\<close> on each axis. An
  index is its dimension and the list of its entries, each a bounding box with the object
  stored under it. With \<^verbatim>\<open>interleaved=True\<close> a box in \<open>d\<close> dimensions is written as \<open>d\<close>
  low coordinates followed by \<open>d\<close> high coordinates.
\<close>

record rtree_Index =
  dimension :: int
  items :: "(real list \<times> real list) list"

definition rect_contains :: "real list \<Rightarrow> point \<Rightarrow> bool" where
  "rect_contains b x =
     (length b = 2 * length x \<and>
      list_all2 (\<le>) (take (length x) b) x \<and> list_all2 (\<le>) x (drop (length x) b))"

text \<open>
  \<^verbatim>\<open>Index.count(x)\<close>. A query whose coordinate count is not the dimension of the index
  is the caller's contract violation, signalled and not answered.
\<close>

definition Index_count :: "rtree_Index \<Rightarrow> point \<Rightarrow> error + nat" where
  "Index_count idx x =
     (if int (length x) \<noteq> dimension idx then Inl DimensionMismatch
      else Inr (length (filter (\<lambda>(b, obj). rect_contains b x) (items idx))))"

text \<open>
  Modelled from the spec: \<^verbatim>\<open>obstacle_generator\<close> of
  \<^verbatim>\<open>rrt_algorithms.utilities.obstacle_generation\<close>, which is not among the sources. The
  specification has every obstacle enter the index as an axis-aligned rectangle keyed
  by its own bounding box.
\<close>

definition obstacle_generator :: "real list list \<Rightarrow> (real list \<times> real list) list" where
  "obstacle_generator obstacles = map (\<lambda>obstacle. (obstacle, obstacle)) obstacles"

subsection \<open>ObstacleRtree\<close>

record ObstacleRtree =
  obs :: rtree_Index

text \<open>
  \<^verbatim>\<open>
  p = index.Property()
  p.dimension = dim
  if obstacles is None:
      self.obs = index.Index(interleaved=True, properties=p)
  else:
      if any(len(o) / 2 != dim for o in obstacles):
          raise Exception("Obstacle has incorrect dimension definition")
      if any(o[i] >= o[int(i + len(o) / 2)] for o in obstacles for i in range(int(len(o) / 2))):
          raise Exception("Obstacle start must be less than obstacle end")
      self.obs = index.Index(obstacle_generator(obstacles), interleaved=True, properties=p)
  \<close>
  \<^verbatim>\<open>len(o) / 2\<close> is Python's true division, a float compared with the integer \<open>dim\<close>.
  \<^verbatim>\<open>int(len(o) / 2)\<close> truncates it, which is \<open>length o div 2\<close>, and
  \<^verbatim>\<open>int(i + len(o) / 2)\<close> is \<open>i + length o div 2\<close>, below \<open>length o\<close> for every \<open>i\<close> of
  the range: no read is out of range. The parameter \<^verbatim>\<open>dim\<close> is written \<open>dimen\<close>.
\<close>

definition ObstacleRtree_init :: "int \<Rightarrow> real list list option \<Rightarrow> error + ObstacleRtree" where
  "ObstacleRtree_init dimen obstacles =
     (case obstacles of
        None \<Rightarrow> Inr \<lparr>obs = \<lparr>dimension = dimen, items = []\<rparr>\<rparr>
      | Some os \<Rightarrow>
          if list_ex (\<lambda>ob. real (length ob) / 2 \<noteq> of_int dimen) os
            then Inl (Exception ''Obstacle has incorrect dimension definition'')
          else if list_ex (\<lambda>ob. list_ex (\<lambda>i. ob ! i \<ge> ob ! (i + length ob div 2))
                                 [0..<length ob div 2]) os
            then Inl (Exception ''Obstacle start must be less than obstacle end'')
          else Inr \<lparr>obs = \<lparr>dimension = dimen, items = obstacle_generator os\<rparr>\<rparr>)"

text \<open>The specification's names for the two construction failures.\<close>

definition ObstacleDimensionError :: error where
  "ObstacleDimensionError = Exception ''Obstacle has incorrect dimension definition''"

definition ObstacleOrderingError :: error where
  "ObstacleOrderingError = Exception ''Obstacle start must be less than obstacle end''"

text \<open>\<^verbatim>\<open>return self.obs.count(x) == 0\<close>\<close>

definition ObstacleRtree_obstacle_free :: "ObstacleRtree \<Rightarrow> point \<Rightarrow> error + bool" where
  "ObstacleRtree_obstacle_free T x =
     (case Index_count (obs T) x of Inl e \<Rightarrow> Inl e | Inr c \<Rightarrow> Inr (c = 0))"

text \<open>
  Python's \<^verbatim>\<open>all(map(f, points))\<close>: \<open>f\<close> is called on the points in order, the first
  \<^verbatim>\<open>False\<close> ends the iteration with \<^verbatim>\<open>False\<close>, and an exception raised by \<open>f\<close> ends it
  with that exception.
\<close>

fun all_map :: "('a \<Rightarrow> error + bool) \<Rightarrow> 'a list \<Rightarrow> error + bool" where
  "all_map f [] = Inr True"
| "all_map f (x # xs) =
     (case f x of Inl e \<Rightarrow> Inl e | Inr b \<Rightarrow> if b then all_map f xs else Inr False)"

text \<open>
  \<^verbatim>\<open>
  points = es_points_along_line(start, end, r)
  coll_free = all(map(self.obstacle_free, points))
  return coll_free
  \<close>
  The helper \<^verbatim>\<open>es_points_along_line\<close> is imported from
  \<^verbatim>\<open>rrt_algorithms.utilities.geometry\<close>, which is not among the sources; the method is
  modelled for any helper, its first argument.
\<close>

definition ObstacleRtree_collision_free ::
  "(point \<Rightarrow> point \<Rightarrow> real \<Rightarrow> point list) \<Rightarrow> ObstacleRtree \<Rightarrow> point \<Rightarrow> point \<Rightarrow> real
     \<Rightarrow> error + bool" where
  "ObstacleRtree_collision_free points_along T start finish r =
     all_map (ObstacleRtree_obstacle_free T) (points_along start finish r)"

subsection \<open>The segment discretisation\<close>

text \<open>
  Modelled from the spec: the contract of the point-generation helper
  \<^verbatim>\<open>es_points_along_line\<close>, which is not among the sources. The specification has it
  produce an ordered finite sequence of points along the segment from \<open>start\<close> to
  \<open>end\<close>, the first \<open>start\<close>, the last \<open>end\<close>, consecutive points at most the resolution
  apart.
\<close>

definition euclidean_distance :: "point \<Rightarrow> point \<Rightarrow> real" where
  "euclidean_distance a b = sqrt (sum_list (map2 (\<lambda>p q. (q - p)\<^sup>2) a b))"

definition segment_point :: "point \<Rightarrow> point \<Rightarrow> real \<Rightarrow> point" where
  "segment_point a b t = map2 (\<lambda>p q. p + t * (q - p)) a b"

definition on_segment :: "point \<Rightarrow> point \<Rightarrow> point \<Rightarrow> bool" where
  "on_segment a b q = (\<exists>t. 0 \<le> t \<and> t \<le> 1 \<and> q = segment_point a b t)"

definition points_along_segment :: "point \<Rightarrow> point \<Rightarrow> real \<Rightarrow> point list \<Rightarrow> bool" where
  "points_along_segment start finish r ps =
     (ps \<noteq> [] \<and> hd ps = start \<and> last ps = finish \<and>
      list_all (on_segment start finish) ps \<and>
      list_all (\<lambda>k. euclidean_distance (ps ! k) (ps ! Suc k) \<le> r) [0..<length ps - 1])"

text \<open>
  Modelled from the spec: one helper that meets this contract, for the statements that
  need a concrete one. The segment is cut into \<open>n\<close> equal parts, \<open>n\<close> the least positive
  number of parts that keeps consecutive points within the resolution, and the \<open>n + 1\<close>
  cut points are returned in order.
\<close>

definition es_points_along_line :: "point \<Rightarrow> point \<Rightarrow> real \<Rightarrow> point list" where
  "es_points_along_line start finish r =
     (let d = euclidean_distance start finish;
          n = max 1 (nat \<lceil>d / r\<rceil>)
      in map (\<lambda>k. segment_point start finish (real k / real n)) [0..<Suc n])"

subsection \<open>Well-formed inputs\<close>

text \<open>
  The inputs the two constructors accept, in the specification's words: at least two
  bounds, each a pair with its low end strictly below its high end; an obstacle of
  \<open>2 * dimen\<close> coordinates, each low coordinate strictly below the high coordinate of its
  axis.
\<close>

definition valid_bounds :: "real list list \<Rightarrow> bool" where
  "valid_bounds dls = (2 \<le> length dls \<and> (\<forall>i \<in> set dls. length i = 2 \<and> i ! 0 < i ! 1))"

definition valid_obstacle :: "int \<Rightarrow> real list \<Rightarrow> bool" where
  "valid_obstacle dimen ob =
     (int (length ob) = 2 * dimen \<and> (\<forall>i < nat dimen. ob ! i < ob ! (i + nat dimen)))"

text \<open>
  The point that the call number \<open>k\<close> of \<^verbatim>\<open>sample\<close> returns (counting from \<open>0\<close>) when the
  generator stands at position \<open>n\<close> before the first call: every call consumes one
  variate per axis.
\<close>

definition draw :: "'c SearchSpace \<Rightarrow> (nat \<Rightarrow> real) \<Rightarrow> nat \<Rightarrow> nat \<Rightarrow> point" where
  "draw X rng n k = fst (sample X rng (n + k * length (dimension_lengths X)))"

section \<open>Construction of a search space\<close>

lemma SearchSpace_errors_distinct:
  "InvalidDimensionError \<noteq> MalformedBoundError \<and>
   InvalidDimensionError \<noteq> DegenerateBoundError \<and>
   MalformedBoundError \<noteq> DegenerateBoundError"
  by (simp add: InvalidDimensionError_def MalformedBoundError_def DegenerateBoundError_def)

text \<open>
  C5. Constructing a search space fails exactly when the bounds are not valid, and the
  exception tells which check failed: fewer than two bounds raise the first, then a
  bound that is not a pair raises the second, then a pair whose low end is not below its
  high end raises the third; the checks run in this order, so a later failure is
  reported only when the earlier checks pass. Valid bounds give the object, which holds
  the bounds and the two predicates as they were passed.
\<close>

theorem SearchSpace_init_spec:
  "(isl (SearchSpace_init dls f g) \<longleftrightarrow> \<not> valid_bounds dls) \<and>
   (length dls < 2 \<longrightarrow> SearchSpace_init dls f g = Inl InvalidDimensionError) \<and>
   (2 \<le> length dls \<and> (\<exists>i \<in> set dls. length i \<noteq> 2) \<longrightarrow>
      SearchSpace_init dls f g = Inl MalformedBoundError) \<and>
   (2 \<le> length dls \<and> (\<forall>i \<in> set dls. length i = 2) \<and> (\<exists>i \<in> set dls. i ! 0 \<ge> i ! 1) \<longrightarrow>
      SearchSpace_init dls f g = Inl DegenerateBoundError) \<and>
   (valid_bounds dls \<longrightarrow>
      SearchSpace_init dls f g =
        Inr \<lparr>dimensions = length dls, dimension_lengths = dls,
             obstacle_free = f, collision_free = g\<rparr>) \<and>
   InvalidDimensionError \<noteq> MalformedBoundError \<and>
   InvalidDimensionError \<noteq> DegenerateBoundError \<and>
   MalformedBoundError \<noteq> DegenerateBoundError"
  unfolding SearchSpace_init_def valid_bounds_def list_ex_iff
  using SearchSpace_errors_distinct
  by (auto simp: InvalidDimensionError_def MalformedBoundError_def DegenerateBoundError_def
        not_le not_less)

theorem SearchSpace_init_spec_witness:
  "SearchSpace_init [[0, 10], [0, 5]] (\<lambda>x. True) () =
      Inr \<lparr>dimensions = 2, dimension_lengths = [[0, 10], [0, 5]],
           obstacle_free = (\<lambda>x. True), collision_free = ()\<rparr> \<and>
   SearchSpace_init [[0, 1]] (\<lambda>x. True) () = Inl InvalidDimensionError \<and>
   SearchSpace_init [[0, 1], [0, 1, 2]] (\<lambda>x. True) () = Inl MalformedBoundError \<and>
   SearchSpace_init [[1, 0], [0, 1]] (\<lambda>x. True) () = Inl DegenerateBoundError"
  using SearchSpace_init_spec [of "[[0, 10], [0, 5]]" "\<lambda>x. True" "()"]
        SearchSpace_init_spec [of "[[0, 1]]" "\<lambda>x. True" "()"]
        SearchSpace_init_spec [of "[[0, 1], [0, 1, 2]]" "\<lambda>x. True" "()"]
        SearchSpace_init_spec [of "[[1, 0], [0, 1]]" "\<lambda>x. True" "()"]
  by (simp add: valid_bounds_def)

section \<open>Construction of an obstacle index\<close>

lemma half_length_neq:
  "(real (length ob) / 2 \<noteq> of_int dimen) = (int (length ob) \<noteq> 2 * dimen)"
proof -
  have "(real (length ob) / 2 = of_int dimen) = (real (length ob) = of_int (2 * dimen))"
    by (simp add: field_simps)
  also have "\<dots> = (real_of_int (int (length ob)) = of_int (2 * dimen))"
    by simp
  also have "\<dots> = (int (length ob) = 2 * dimen)"
    by (simp only: of_int_eq_iff)
  finally show ?thesis by simp
qed

lemma half_length: "int (length ob) = 2 * dimen \<Longrightarrow> length ob div 2 = nat dimen"
  by linarith

lemma ordering_check:
  assumes "int (length (ob::real list)) = 2 * dimen"
  shows "list_ex (\<lambda>i. ob ! i \<ge> ob ! (i + length ob div 2)) [0..<length ob div 2]
           = (\<exists>i < nat dimen. ob ! i \<ge> ob ! (i + nat dimen))"
  using half_length [OF assms] by (auto simp: list_ex_iff)

lemma dimension_check:
  "list_ex (\<lambda>ob. real (length ob) / 2 \<noteq> of_int dimen) os
     = (\<exists>ob \<in> set os. int (length ob) \<noteq> 2 * dimen)"
  unfolding list_ex_iff half_length_neq by (rule refl)

lemma ordering_check_all:
  assumes "\<forall>ob \<in> set os. int (length (ob::real list)) = 2 * dimen"
  shows "list_ex (\<lambda>ob. list_ex (\<lambda>i. ob ! i \<ge> ob ! (i + length ob div 2))
                          [0..<length ob div 2]) os
           = (\<exists>ob \<in> set os. \<exists>i < nat dimen. ob ! i \<ge> ob ! (i + nat dimen))"
proof -
  have "list_ex (\<lambda>i. ob ! i \<ge> ob ! (i + length ob div 2)) [0..<length ob div 2]
          = (\<exists>i < nat dimen. ob ! i \<ge> ob ! (i + nat dimen))" if "ob \<in> set os" for ob
    using that assms by (intro ordering_check) blast
  then show ?thesis
    unfolding list_ex_iff [where xs = os] by blast
qed

lemma ObstacleRtree_init_Some:
  "ObstacleRtree_init dimen (Some os) =
     (if \<exists>ob \<in> set os. int (length ob) \<noteq> 2 * dimen then Inl ObstacleDimensionError
      else if \<exists>ob \<in> set os. \<exists>i < nat dimen. ob ! i \<ge> ob ! (i + nat dimen)
        then Inl ObstacleOrderingError
      else Inr \<lparr>obs = \<lparr>dimension = dimen, items = obstacle_generator os\<rparr>\<rparr>)"
proof (cases "\<exists>ob \<in> set os. int (length ob) \<noteq> 2 * dimen")
  case True
  then show ?thesis
    unfolding ObstacleRtree_init_def dimension_check ObstacleDimensionError_def by simp
next
  case False
  then have "\<forall>ob \<in> set os. int (length ob) = 2 * dimen" by simp
  from ordering_check_all [OF this] False show ?thesis
    unfolding ObstacleRtree_init_def dimension_check ObstacleOrderingError_def by simp
qed

lemma Obstacle_errors_distinct: "ObstacleDimensionError \<noteq> ObstacleOrderingError"
  by (simp add: ObstacleDimensionError_def ObstacleOrderingError_def)

text \<open>
  C6. Constructing an obstacle index from a list of obstacles fails exactly when some
  obstacle is not valid, and the exception tells which check failed: an obstacle whose
  coordinate count is not twice the dimension raises the first; when every count is
  right, an obstacle with a low coordinate not below the high coordinate of its axis
  raises the second. When every obstacle is valid the index is built and holds every
  obstacle, in order, each under its own coordinates as bounding box.
\<close>

theorem ObstacleRtree_init_spec:
  "(isl (ObstacleRtree_init dimen (Some os)) \<longleftrightarrow> (\<exists>ob \<in> set os. \<not> valid_obstacle dimen ob)) \<and>
   ((\<exists>ob \<in> set os. int (length ob) \<noteq> 2 * dimen) \<longrightarrow>
      ObstacleRtree_init dimen (Some os) = Inl ObstacleDimensionError) \<and>
   ((\<forall>ob \<in> set os. int (length ob) = 2 * dimen) \<and>
    (\<exists>ob \<in> set os. \<exists>i < nat dimen. ob ! i \<ge> ob ! (i + nat dimen)) \<longrightarrow>
      ObstacleRtree_init dimen (Some os) = Inl ObstacleOrderingError) \<and>
   ((\<forall>ob \<in> set os. valid_obstacle dimen ob) \<longrightarrow>
      ObstacleRtree_init dimen (Some os) =
        Inr \<lparr>obs = \<lparr>dimension = dimen, items = map (\<lambda>ob. (ob, ob)) os\<rparr>\<rparr>) \<and>
   ObstacleDimensionError \<noteq> ObstacleOrderingError"
  unfolding ObstacleRtree_init_Some valid_obstacle_def
  using Obstacle_errors_distinct
  by (auto simp: obstacle_generator_def not_le not_less comp_def)

theorem ObstacleRtree_init_spec_witness:
  "ObstacleRtree_init 2 (Some [[2, 2, 4, 4], [5, 0, 6, 1]]) =
     Inr \<lparr>obs = \<lparr>dimension = 2,
                 items = [([2, 2, 4, 4], [2, 2, 4, 4]), ([5, 0, 6, 1], [5, 0, 6, 1])]\<rparr>\<rparr> \<and>
   ObstacleRtree_init 2 (Some [[0, 0, 1]]) = Inl ObstacleDimensionError \<and>
   ObstacleRtree_init 2 (Some [[2, 2, 4, 1]]) = Inl ObstacleOrderingError"
  using ObstacleRtree_init_spec [of 2 "[[2, 2, 4, 4], [5, 0, 6, 1]]"]
        ObstacleRtree_init_spec [of 2 "[[0, 0, 1]]"]
        ObstacleRtree_init_spec [of 2 "[[2, 2, 4, 1]]"]
  by (simp add: valid_obstacle_def numeral_2_eq_2 All_less_Suc Ex_less_Suc)

section \<open>Sampling\<close>

lemma SearchSpace_init_Inr:
  assumes "SearchSpace_init dls f g = Inr X"
  shows "X = \<lparr>dimensions = length dls, dimension_lengths = dls,
              obstacle_free = f, collision_free = g\<rparr>"
    and "valid_bounds dls"
  using assms
  by (auto simp: SearchSpace_init_def valid_bounds_def list_ex_iff not_le split: if_splits)

lemma uniform_in_range:
  fixes lo hi u :: real
  assumes "lo < hi" "0 \<le> u" "u < 1"
  shows "lo \<le> lo + (hi - lo) * u" and "lo + (hi - lo) * u < hi"
proof -
  from assms show "lo \<le> lo + (hi - lo) * u" by simp
  have "(hi - lo) * u < (hi - lo) * 1"
    using assms by (intro mult_strict_left_mono) simp_all
  then show "lo + (hi - lo) * u < hi" by simp
qed

lemma sample_nth:
  assumes "i < length (dimension_lengths X)"
  shows "fst (sample X rng n) ! i =
           dimension_lengths X ! i ! 0
             + (dimension_lengths X ! i ! 1 - dimension_lengths X ! i ! 0) * rng (n + i)"
  using assms by (simp add: sample_def np_random_uniform_def column_def)

lemma sample_length: "length (fst (sample X rng n)) = length (dimension_lengths X)"
  by (simp add: sample_def np_random_uniform_def column_def)

lemma sample_position: "snd (sample X rng n) = n + length (dimension_lengths X)"
  by (simp add: sample_def np_random_uniform_def column_def)

text \<open>
  What the model can say of \<^verbatim>\<open>sample\<close> without speaking of probability. In a
  constructed search space, whatever unit variates the generator delivers, \<^verbatim>\<open>sample\<close>
  returns a point with one coordinate per axis, and the coordinate of every axis lies
  between the low and the high bound of that axis, both included. The coordinate of the
  axis \<open>i\<close> is the affine image of one variate of its own, the one at position \<open>n + i\<close>,
  and the call consumes exactly one variate per axis.

  This is not the whole of C3: that the draws are uniform and independent is a statement
  about the probability law of the generator, which is not a value of this model, and
  the bounds themselves rest on the model of \<^verbatim>\<open>np.random.uniform\<close> above. The lemma
  holds for every stream of variates in \<open>[0, 1)\<close>, a constant one included.
\<close>

lemma sample_within_bounds:
  assumes "SearchSpace_init dls f g = Inr X"
    and "\<forall>k. 0 \<le> rng k \<and> rng k < 1"
  shows "length (fst (sample X rng n)) = dimensions X \<and>
         (\<forall>i < dimensions X.
            fst (sample X rng n) ! i = dls ! i ! 0 + (dls ! i ! 1 - dls ! i ! 0) * rng (n + i) \<and>
            dls ! i ! 0 \<le> fst (sample X rng n) ! i \<and> fst (sample X rng n) ! i \<le> dls ! i ! 1) \<and>
         snd (sample X rng n) = n + dimensions X"
proof -
  note X = SearchSpace_init_Inr(1) [OF assms(1)]
  have dl: "dimension_lengths X = dls" and dm: "dimensions X = length dls"
    by (simp_all add: X)
  have bounds: "dls ! i ! 0 < dls ! i ! 1" if "i < length dls" for i
    using SearchSpace_init_Inr(2) [OF assms(1)] that by (simp add: valid_bounds_def)
  have coord: "fst (sample X rng n) ! i = dls ! i ! 0 + (dls ! i ! 1 - dls ! i ! 0) * rng (n + i) \<and>
        dls ! i ! 0 \<le> fst (sample X rng n) ! i \<and> fst (sample X rng n) ! i \<le> dls ! i ! 1"
    if "i < length dls" for i
  proof -
    have eq: "fst (sample X rng n) ! i = dls ! i ! 0 + (dls ! i ! 1 - dls ! i ! 0) * rng (n + i)"
      using sample_nth [of i X rng n] that by (simp add: dl)
    from assms(2) have u: "0 \<le> rng (n + i)" "rng (n + i) < 1" by simp_all
    from uniform_in_range [OF bounds [OF that] u] eq show ?thesis by simp
  qed
  have every: "\<forall>i < dimensions X.
      fst (sample X rng n) ! i = dls ! i ! 0 + (dls ! i ! 1 - dls ! i ! 0) * rng (n + i) \<and>
      dls ! i ! 0 \<le> fst (sample X rng n) ! i \<and> fst (sample X rng n) ! i \<le> dls ! i ! 1"
    unfolding dm using coord by blast
  have len: "length (fst (sample X rng n)) = dimensions X"
    by (simp add: sample_length dl dm)
  have pos: "snd (sample X rng n) = n + dimensions X"
    by (simp add: sample_position dl dm)
  from len every pos show ?thesis by blast
qed

lemma sample_within_bounds_example:
  "SearchSpace_init [[0, 10], [-1, 1]] (\<lambda>x. True) () =
      Inr \<lparr>dimensions = 2, dimension_lengths = [[0, 10], [-1, 1]],
           obstacle_free = (\<lambda>x. True), collision_free = ()\<rparr> \<and>
   fst (sample \<lparr>dimensions = 2, dimension_lengths = [[0, 10], [-1, 1]],
                obstacle_free = (\<lambda>x. True), collision_free = ()\<rparr> (\<lambda>k. 1 / (2 + real k)) 0)
     = [5, -1/3] \<and>
   snd (sample \<lparr>dimensions = 2, dimension_lengths = [[0, 10], [-1, 1]],
                obstacle_free = (\<lambda>x. True), collision_free = ()\<rparr> (\<lambda>k. 1 / (2 + real k)) 0)
     = 2"
proof -
  let ?X = "\<lparr>dimensions = 2, dimension_lengths = [[0, 10], [-1, 1 :: real]],
           obstacle_free = (\<lambda>x :: point. True), collision_free = ()\<rparr>"
  let ?rng = "\<lambda>k. 1 / (2 + real k)"
  have init: "SearchSpace_init [[0, 10], [-1, 1]] (\<lambda>x. True) () = Inr ?X"
    by (simp add: SearchSpace_init_def)
  have unit: "\<forall>k. 0 \<le> ?rng k \<and> ?rng k < 1"
    by simp
  have "fst (sample ?X ?rng 0) = [fst (sample ?X ?rng 0) ! 0, fst (sample ?X ?rng 0) ! 1]"
    using sample_within_bounds [OF init unit, of 0]
    by (cases "fst (sample ?X ?rng 0)"; cases "tl (fst (sample ?X ?rng 0))") auto
  with sample_within_bounds [OF init unit, of 0] init show ?thesis
    by (simp add: All_less_Suc numeral_2_eq_2)
qed

section \<open>Rejection sampling\<close>

lemma sample_pair: "sample X rng n = (draw X rng n 0, n + length (dimension_lengths X))"
  using sample_position [of X rng n] by (simp add: draw_def prod_eq_iff)

lemma draw_shift: "draw X rng (n + length (dimension_lengths X)) k = draw X rng n (Suc k)"
  by (simp add: draw_def add.assoc add.commute)

lemma sample_free_unfold:
  "sample_free X rng n =
     (if obstacle_free X (draw X rng n 0)
      then Some (draw X rng n 0, n + length (dimension_lengths X))
      else sample_free X rng (n + length (dimension_lengths X)))"
  by (subst sample_free.simps) (simp add: sample_pair)

text \<open>The loop returns at the first draw that the predicate accepts, however late it comes.\<close>

lemma sample_free_first:
  assumes "obstacle_free X (draw X rng n k)" and "\<forall>j < k. \<not> obstacle_free X (draw X rng n j)"
  shows "sample_free X rng n = Some (draw X rng n k, n + Suc k * length (dimension_lengths X))"
  using assms
proof (induction k arbitrary: n)
  case 0
  then show ?case by (subst sample_free_unfold) simp
next
  case (Suc k)
  let ?d = "length (dimension_lengths X)"
  from Suc.prems(2) have no: "\<not> obstacle_free X (draw X rng n 0)" by blast
  have "sample_free X rng (n + ?d) = Some (draw X rng (n + ?d) k, (n + ?d) + Suc k * ?d)"
  proof (rule Suc.IH)
    show "obstacle_free X (draw X rng (n + ?d) k)"
      using Suc.prems(1) by (simp add: draw_shift)
    show "\<forall>j < k. \<not> obstacle_free X (draw X rng (n + ?d) j)"
      using Suc.prems(2) by (simp add: draw_shift)
  qed
  with no show ?case
    by (subst sample_free_unfold) (simp add: draw_shift add.assoc)
qed

text \<open>A call that returns has seen a draw that the predicate accepts.\<close>

lemma sample_free_Some_draw:
  assumes "sample_free X rng n = Some y"
  shows "\<exists>k. obstacle_free X (draw X rng n k)"
proof (rule sample_free.raw_induct
    [where P = "\<lambda>X rng n y. \<exists>k. obstacle_free X (draw X rng n k)", OF _ assms])
  fix sf :: "'a SearchSpace \<Rightarrow> (nat \<Rightarrow> real) \<Rightarrow> nat \<Rightarrow> (point \<times> nat) option"
    and X rng n y
  assume IH: "\<And>X rng n y. sf X rng n = Some y \<Longrightarrow> \<exists>k. obstacle_free X (draw X rng n k)"
    and body: "(case sample X rng n of
                 (x, n') \<Rightarrow> if obstacle_free X x then Some (x, n') else sf X rng n') = Some y"
  show "\<exists>k. obstacle_free X (draw X rng n k)"
  proof (cases "obstacle_free X (draw X rng n 0)")
    case True
    then show ?thesis by blast
  next
    case False
    with body have "sf X rng (n + length (dimension_lengths X)) = Some y"
      by (simp add: sample_pair)
    from IH [OF this] obtain k
      where "obstacle_free X (draw X rng (n + length (dimension_lengths X)) k)" by blast
    then have "obstacle_free X (draw X rng n (Suc k))" by (simp add: draw_shift)
    then show ?thesis by blast
  qed
qed

text \<open>
  C4. \<^verbatim>\<open>sample_free\<close> returns a point exactly when some draw of \<^verbatim>\<open>sample\<close> is accepted
  by the predicate of the space, and then it returns the first accepted draw: the point
  is a value of \<^verbatim>\<open>sample\<close>, the predicate holds of it, every earlier draw was rejected,
  and the generator stands right after that draw. The number of rejected draws before
  it is not bounded. When no draw is ever accepted the call does not return; the loop has
  no other exit, and none that raises.
\<close>

theorem sample_free_first_accepted:
  "(sample_free X rng n = Some (x, n') \<longleftrightarrow>
      (\<exists>k. x = draw X rng n k \<and> n' = n + Suc k * length (dimension_lengths X) \<and>
           obstacle_free X (draw X rng n k) \<and> (\<forall>j < k. \<not> obstacle_free X (draw X rng n j)))) \<and>
   (sample_free X rng n = None \<longleftrightarrow> (\<forall>k. \<not> obstacle_free X (draw X rng n k)))"
proof -
  let ?d = "length (dimension_lengths X)"
  let ?P = "\<lambda>k. obstacle_free X (draw X rng n k)"
  have first: "sample_free X rng n = Some (draw X rng n k, n + Suc k * ?d)"
    if "?P k" "\<forall>j < k. \<not> ?P j" for k
    using that by (rule sample_free_first)
  have least: "\<exists>k. ?P k \<and> (\<forall>j < k. \<not> ?P j)" if "\<exists>k. ?P k"
    using that exists_least_iff [of ?P] by blast
  have none: "sample_free X rng n = None \<longleftrightarrow> (\<forall>k. \<not> ?P k)"
  proof
    assume "sample_free X rng n = None"
    show "\<forall>k. \<not> ?P k"
    proof (rule ccontr)
      assume "\<not> (\<forall>k. \<not> ?P k)"
      then have "\<exists>k. ?P k" by blast
      from least [OF this] obtain k where "?P k" "\<forall>j < k. \<not> ?P j" by blast
      from first [OF this] \<open>sample_free X rng n = None\<close> show False by simp
    qed
  next
    assume "\<forall>k. \<not> ?P k"
    then show "sample_free X rng n = None"
      using sample_free_Some_draw [of X rng n] by (cases "sample_free X rng n") auto
  qed
  have some: "sample_free X rng n = Some (x, n') \<longleftrightarrow>
      (\<exists>k. x = draw X rng n k \<and> n' = n + Suc k * ?d \<and> ?P k \<and> (\<forall>j < k. \<not> ?P j))"
  proof
    assume s: "sample_free X rng n = Some (x, n')"
    then have "\<exists>k. ?P k" by (rule sample_free_Some_draw)
    from least [OF this] obtain k where k: "?P k" "\<forall>j < k. \<not> ?P j" by blast
    from first [OF this] s have "x = draw X rng n k" "n' = n + Suc k * ?d" by simp_all
    with k show "\<exists>k. x = draw X rng n k \<and> n' = n + Suc k * ?d \<and> ?P k \<and> (\<forall>j < k. \<not> ?P j)"
      by blast
  next
    assume "\<exists>k. x = draw X rng n k \<and> n' = n + Suc k * ?d \<and> ?P k \<and> (\<forall>j < k. \<not> ?P j)"
    then obtain k where "x = draw X rng n k" "n' = n + Suc k * ?d" "?P k" "\<forall>j < k. \<not> ?P j"
      by blast
    with first [of k] show "sample_free X rng n = Some (x, n')" by simp
  qed
  from some none show ?thesis by blast
qed

theorem sample_free_first_accepted_witness:
  "sample_free \<lparr>dimensions = 2, dimension_lengths = [[0, 10], [0, 4]],
                 obstacle_free = (\<lambda>x. 3 < x ! 0), collision_free = ()\<rparr>
     (\<lambda>k. if k < 2 then 1/10 else 1/2) 0 = Some ([5, 2], 4)"
proof -
  let ?X = "\<lparr>dimensions = 2, dimension_lengths = [[0, 10], [0, 4 :: real]],
             obstacle_free = (\<lambda>x :: point. 3 < x ! 0), collision_free = ()\<rparr>"
  let ?rng = "\<lambda>k :: nat. if k < 2 then 1/10 else (1/2 :: real)"
  have d0: "draw ?X ?rng 0 0 = [1, 2/5]"
    by (simp add: draw_def sample_def np_random_uniform_def column_def eval_nat_numeral)
  have d1: "draw ?X ?rng 0 (Suc 0) = [5, 2]"
    by (simp add: draw_def sample_def np_random_uniform_def column_def eval_nat_numeral)
  have "\<exists>k. [5, 2] = draw ?X ?rng 0 k \<and> 4 = 0 + Suc k * length (dimension_lengths ?X) \<and>
          obstacle_free ?X (draw ?X ?rng 0 k) \<and> (\<forall>j < k. \<not> obstacle_free ?X (draw ?X ?rng 0 j))"
    by (rule exI [of _ "Suc 0"]) (simp add: d0 d1)
  with sample_free_first_accepted [of ?X ?rng 0 "[5, 2]" 4] show ?thesis by blast
qed

section \<open>Point queries\<close>

lemma obstacle_free_in_dimension:
  "int (length x) = dimension (obs T) \<Longrightarrow>
     ObstacleRtree_obstacle_free T x =
       Inr (length (filter (\<lambda>(b, obj). rect_contains b x) (items (obs T))) = 0)"
  by (simp add: ObstacleRtree_obstacle_free_def Index_count_def)

text \<open>A point of another dimension is refused, not answered.\<close>

lemma obstacle_free_off_dimension:
  "int (length x) \<noteq> dimension (obs T) \<Longrightarrow>
     ObstacleRtree_obstacle_free T x = Inl DimensionMismatch"
  by (simp add: ObstacleRtree_obstacle_free_def Index_count_def)

text \<open>Containment, axis by axis: both ends of the interval of every axis are included.\<close>

lemma rect_contains_nth:
  "rect_contains b x \<longleftrightarrow>
     length b = 2 * length x \<and> (\<forall>i < length x. b ! i \<le> x ! i \<and> x ! i \<le> b ! (i + length x))"
  by (auto simp: rect_contains_def list_all2_conv_all_nth add.commute)

text \<open>
  C1. For a point of the index's dimension, the index counts the entries whose bounding
  box contains the point, and \<^verbatim>\<open>obstacle_free\<close> returns true exactly when that count is
  zero, that is when no entry's box contains the point. The method is a function of the
  index and the point that returns the boolean alone: it assigns nothing, and the count
  is a query of the index.
\<close>

theorem obstacle_free_iff_count_zero:
  assumes "int (length x) = dimension (obs T)"
  shows "Index_count (obs T) x =
           Inr (length (filter (\<lambda>e. rect_contains (fst e) x) (items (obs T)))) \<and>
         ObstacleRtree_obstacle_free T x =
           Inr (length (filter (\<lambda>e. rect_contains (fst e) x) (items (obs T))) = 0) \<and>
         (ObstacleRtree_obstacle_free T x = Inr True \<longleftrightarrow>
            (\<forall>e \<in> set (items (obs T)). \<not> rect_contains (fst e) x))"
  using assms
  by (auto simp: ObstacleRtree_obstacle_free_def Index_count_def case_prod_unfold
        filter_empty_conv)

theorem obstacle_free_iff_count_zero_witness:
  "Index_count
     \<lparr>dimension = 2, items = [([2, 2, 4, 4], [2, 2, 4, 4]), ([3, 3, 5, 5], [3, 3, 5, 5])]\<rparr>
     [7/2, 7/2] = Inr 2 \<and>
   ObstacleRtree_obstacle_free
     \<lparr>obs = \<lparr>dimension = 2,
              items = [([2, 2, 4, 4], [2, 2, 4, 4]), ([3, 3, 5, 5], [3, 3, 5, 5])]\<rparr>\<rparr>
     [7/2, 7/2] = Inr False \<and>
   ObstacleRtree_obstacle_free
     \<lparr>obs = \<lparr>dimension = 2,
              items = [([2, 2, 4, 4], [2, 2, 4, 4]), ([3, 3, 5, 5], [3, 3, 5, 5])]\<rparr>\<rparr>
     [0, 0] = Inr True"
  using obstacle_free_iff_count_zero
      [of "[7/2, 7/2]"
          "\<lparr>obs = \<lparr>dimension = 2,
                     items = [([2, 2, 4, 4], [2, 2, 4, 4]), ([3, 3, 5, 5], [3, 3, 5, 5])]\<rparr>\<rparr>"]
    obstacle_free_iff_count_zero
      [of "[0, 0]"
          "\<lparr>obs = \<lparr>dimension = 2,
                     items = [([2, 2, 4, 4], [2, 2, 4, 4]), ([3, 3, 5, 5], [3, 3, 5, 5])]\<rparr>\<rparr>"]
  by (simp add: rect_contains_def)

text \<open>
  C10. Containment includes the boundary. In an index built from a list of obstacles,
  a point of the index's dimension whose every coordinate lies between the low and the
  high coordinate of one obstacle on that axis, the two ends included, is not obstacle
  free: a point on a face, an edge or a corner of a box counts as inside it.
\<close>

theorem obstacle_boundary_inclusive:
  assumes "ObstacleRtree_init dimen (Some os) = Inr T"
    and "ob \<in> set os"
    and "int (length x) = dimen"
    and "\<forall>i < length x. ob ! i \<le> x ! i \<and> x ! i \<le> ob ! (i + length x)"
  shows "ObstacleRtree_obstacle_free T x = Inr False"
proof -
  from assms(1) have T: "T = \<lparr>obs = \<lparr>dimension = dimen, items = obstacle_generator os\<rparr>\<rparr>"
    and dims: "\<not> list_ex (\<lambda>ob. real (length ob) / 2 \<noteq> of_int dimen) os"
    by (auto simp: ObstacleRtree_init_def split: if_splits)
  from dims assms(2) have "real (length ob) / 2 = of_int dimen"
    by (auto simp: list_ex_iff)
  with assms(3) have "real (length ob) = 2 * real (length x)"
    by (simp add: field_simps)
  then have "length ob = 2 * length x"
    by linarith
  with assms(4) have "rect_contains ob x"
    by (simp add: rect_contains_nth)
  with assms(2) have "filter (\<lambda>(b, obj). rect_contains b x) (obstacle_generator os) \<noteq> []"
    by (auto simp: filter_empty_conv obstacle_generator_def)
  with assms(3) show ?thesis
    by (simp add: T ObstacleRtree_obstacle_free_def Index_count_def)
qed

theorem obstacle_boundary_inclusive_witness:
  "ObstacleRtree_init 2 (Some [[2, 2, 4, 4]]) =
     Inr \<lparr>obs = \<lparr>dimension = 2, items = [([2, 2, 4, 4], [2, 2, 4, 4])]\<rparr>\<rparr> \<and>
   ObstacleRtree_obstacle_free
     \<lparr>obs = \<lparr>dimension = 2, items = [([2, 2, 4, 4], [2, 2, 4, 4])]\<rparr>\<rparr> [2, 4] = Inr False \<and>
   ObstacleRtree_obstacle_free
     \<lparr>obs = \<lparr>dimension = 2, items = [([2, 2, 4, 4], [2, 2, 4, 4])]\<rparr>\<rparr> [3, 2] = Inr False"
proof -
  let ?T = "\<lparr>obs = \<lparr>dimension = 2, items = [([2, 2, 4, 4], [2, 2, 4, 4 :: real])]\<rparr>\<rparr>"
  have init: "ObstacleRtree_init 2 (Some [[2, 2, 4, 4]]) = Inr ?T"
    by (simp add: ObstacleRtree_init_def obstacle_generator_def)
  have corner: "\<forall>i < length [2, 4 :: real]. [2, 2, 4, 4] ! i \<le> [2, 4 :: real] ! i \<and>
      [2, 4] ! i \<le> [2, 2, 4, 4 :: real] ! (i + length [2, 4 :: real])"
    by (simp add: All_less_Suc)
  have face: "\<forall>i < length [3, 2 :: real]. [2, 2, 4, 4] ! i \<le> [3, 2 :: real] ! i \<and>
      [3, 2] ! i \<le> [2, 2, 4, 4 :: real] ! (i + length [3, 2 :: real])"
    by (simp add: All_less_Suc)
  from obstacle_boundary_inclusive [OF init _ _ corner]
       obstacle_boundary_inclusive [OF init _ _ face] init
  show ?thesis by simp
qed

section \<open>The segment discretisation meets its contract\<close>

lemma segment_point_length: "length (segment_point a b t) = min (length a) (length b)"
  by (simp add: segment_point_def)

lemma segment_point_same: "segment_point p p t = p"
  by (induction p) (simp_all add: segment_point_def)

lemma segment_point_zero: "length a = length b \<Longrightarrow> segment_point a b 0 = a"
  by (induction a b rule: list_induct2) (simp_all add: segment_point_def)

lemma segment_point_one: "length a = length b \<Longrightarrow> segment_point a b 1 = b"
  by (induction a b rule: list_induct2) (simp_all add: segment_point_def)

lemma sum_squares_segment_point:
  "length a = length b \<Longrightarrow>
     sum_list (map2 (\<lambda>p q. (q - p)\<^sup>2) (segment_point a b t) (segment_point a b u))
       = (u - t)\<^sup>2 * sum_list (map2 (\<lambda>p q. (q - p)\<^sup>2) a b)"
proof (induction a b rule: list_induct2)
  case Nil
  then show ?case by (simp add: segment_point_def)
next
  case (Cons x xs y ys)
  have "(x + u * (y - x) - (x + t * (y - x)))\<^sup>2 = (u - t)\<^sup>2 * (y - x)\<^sup>2"
    by (simp add: power2_eq_square algebra_simps)
  with Cons.IH show ?case
    by (simp add: segment_point_def distrib_left)
qed

lemma distance_segment_point:
  "length a = length b \<Longrightarrow>
     euclidean_distance (segment_point a b t) (segment_point a b u) = \<bar>u - t\<bar> * euclidean_distance a b"
  by (simp add: euclidean_distance_def sum_squares_segment_point real_sqrt_mult)

lemma euclidean_distance_nonneg: "0 \<le> euclidean_distance a b"
  unfolding euclidean_distance_def
  by (intro real_sqrt_ge_zero sum_list_nonneg) auto

lemma parts_bound:
  assumes "0 < r" "0 \<le> d"
  shows "d / real (max 1 (nat \<lceil>d / r\<rceil>)) \<le> r"
proof -
  let ?n = "max 1 (nat \<lceil>d / r\<rceil>)"
  have "d / r \<le> real_of_int \<lceil>d / r\<rceil>" by (rule le_of_int_ceiling)
  also have "\<dots> \<le> real (nat \<lceil>d / r\<rceil>)" by simp
  also have "\<dots> \<le> real ?n" by simp
  finally have "d / r \<le> real ?n" .
  then have "d \<le> real ?n * r" using assms(1) by (simp add: pos_divide_le_eq)
  moreover have "0 < real ?n" by simp
  ultimately show ?thesis by (simp add: pos_divide_le_eq mult.commute)
qed

text \<open>
  The equally spaced helper meets the contract for every segment between two points of
  the same dimension and every positive resolution.
\<close>

lemma es_points_along_line_contract:
  assumes len: "length start = length finish" and r: "0 < r"
  shows "points_along_segment start finish r (es_points_along_line start finish r)"
proof -
  define n where "n = max 1 (nat \<lceil>euclidean_distance start finish / r\<rceil>)"
  define ps where "ps = map (\<lambda>k. segment_point start finish (real k / real n)) [0..<Suc n]"
  have n: "0 < n" by (simp add: n_def)
  have eq: "es_points_along_line start finish r = ps"
    by (simp add: es_points_along_line_def ps_def n_def Let_def)
  have lps: "length ps = Suc n" by (simp add: ps_def)
  have nth: "ps ! k = segment_point start finish (real k / real n)" if "k \<le> n" for k
    using that unfolding ps_def by (simp del: upt_Suc)
  have ne: "ps \<noteq> []" using lps by auto
  have "hd ps = ps ! 0" using ne by (simp add: hd_conv_nth)
  then have first: "hd ps = start" using nth [of 0] len by (simp add: segment_point_zero)
  have "last ps = ps ! n" using ne lps by (simp add: last_conv_nth)
  then have final: "last ps = finish" using nth [of n] n len by (simp add: segment_point_one)
  have seg: "list_all (on_segment start finish) ps"
    unfolding list_all_iff
  proof
    fix q assume "q \<in> set ps"
    then obtain k where k: "k \<le> n" "q = segment_point start finish (real k / real n)"
      unfolding ps_def set_map set_upt by (auto simp: less_Suc_eq_le)
    have "0 \<le> real k / real n" "real k / real n \<le> 1" using k(1) n by simp_all
    with k(2) show "on_segment start finish q" unfolding on_segment_def by blast
  qed
  have gap: "list_all (\<lambda>k. euclidean_distance (ps ! k) (ps ! Suc k) \<le> r) [0..<length ps - 1]"
    unfolding list_all_iff
  proof
    fix k assume "k \<in> set [0..<length ps - 1]"
    then have k: "k < n" using lps by simp
    have "real (Suc k) / real n - real k / real n = 1 / real n"
      by (simp add: add_divide_distrib)
    then have "euclidean_distance (ps ! k) (ps ! Suc k)
        = \<bar>1 / real n\<bar> * euclidean_distance start finish"
      using k nth [of k] nth [of "Suc k"] len by (simp add: distance_segment_point)
    also have "\<dots> = euclidean_distance start finish / real n" by simp
    also have "\<dots> \<le> r" unfolding n_def by (rule parts_bound [OF r euclidean_distance_nonneg])
    finally show "euclidean_distance (ps ! k) (ps ! Suc k) \<le> r" .
  qed
  show ?thesis
    unfolding eq points_along_segment_def using ne first final seg gap by simp
qed

text \<open>Under the contract every sample point has the dimension of the end points.\<close>

lemma points_along_segment_length:
  assumes "points_along_segment start finish r ps" "length start = length finish" "q \<in> set ps"
  shows "length q = length start"
proof -
  from assms(1,3) have "on_segment start finish q"
    by (simp add: points_along_segment_def list_all_iff)
  then show ?thesis using assms(2) by (auto simp: on_segment_def segment_point_length)
qed




lemma es_outside: "es_points_along_line [0, 3] [1, 3] (1/2) = [[0, 3], [1/2, 3], [1, 3]]"
  by (simp add: es_points_along_line_def euclidean_distance_def segment_point_def eval_nat_numeral)

lemma es_inside: "es_points_along_line [1, 3] [2, 3] (1/2) = [[1, 3], [3/2, 3], [2, 3]]"
  by (simp add: es_points_along_line_def euclidean_distance_def segment_point_def eval_nat_numeral)

section \<open>Segment queries\<close>

lemma all_map_True_iff:
  "all_map f xs = Inr True \<longleftrightarrow> (\<forall>x \<in> set xs. f x = Inr True)"
  by (induction xs) (auto split: sum.splits)

lemma all_map_no_error:
  "(\<And>x. x \<in> set xs \<Longrightarrow> \<not> isl (f x)) \<Longrightarrow>
     all_map f xs = Inr (\<forall>x \<in> set xs. f x = Inr True)"
proof (induction xs)
  case Nil
  then show ?case by simp
next
  case (Cons a xs)
  from Cons.prems [of a] obtain b where b: "f a = Inr b"
    by (cases "f a") auto
  have "all_map f xs = Inr (\<forall>x \<in> set xs. f x = Inr True)"
    by (rule Cons.IH) (simp add: Cons.prems)
  with b show ?case by simp
qed

lemma all_map_constant:
  "xs \<noteq> [] \<Longrightarrow> (\<And>x. x \<in> set xs \<Longrightarrow> x = p) \<Longrightarrow> all_map f xs = f p"
proof (induction xs)
  case Nil
  then show ?case by simp
next
  case (Cons a xs)
  have a: "a = p" using Cons.prems(2) by simp
  show ?case
  proof (cases xs)
    case Nil
    with a show ?thesis by (simp split: sum.splits)
  next
    case (Cons y ys)
    then have "all_map f xs = f p"
      using Cons.IH Cons.prems(2) \<open>xs = y # ys\<close> by simp
    with a show ?thesis by (simp split: sum.splits)
  qed
qed

text \<open>
  C2. Whatever helper discretises the segment, \<^verbatim>\<open>collision_free\<close> returns true exactly
  when \<^verbatim>\<open>obstacle_free\<close> returns true for every point the helper produces for the
  segment and the resolution; and when these points all have the dimension of the
  index, so that no query is refused, the result is the conjunction of \<^verbatim>\<open>obstacle_free\<close>
  over them.
\<close>

theorem collision_free_conjunction:
  "(ObstacleRtree_collision_free points_along T start finish r = Inr True \<longleftrightarrow>
      (\<forall>x \<in> set (points_along start finish r). ObstacleRtree_obstacle_free T x = Inr True)) \<and>
   ((\<forall>x \<in> set (points_along start finish r). int (length x) = dimension (obs T)) \<longrightarrow>
      ObstacleRtree_collision_free points_along T start finish r =
        Inr (\<forall>x \<in> set (points_along start finish r). ObstacleRtree_obstacle_free T x = Inr True))"
proof (intro conjI impI)
  show "ObstacleRtree_collision_free points_along T start finish r = Inr True \<longleftrightarrow>
      (\<forall>x \<in> set (points_along start finish r). ObstacleRtree_obstacle_free T x = Inr True)"
    by (simp add: ObstacleRtree_collision_free_def all_map_True_iff)
next
  assume len: "\<forall>x \<in> set (points_along start finish r). int (length x) = dimension (obs T)"
  have "\<not> isl (ObstacleRtree_obstacle_free T x)" if "x \<in> set (points_along start finish r)" for x
    using that len by (simp add: obstacle_free_in_dimension)
  then show "ObstacleRtree_collision_free points_along T start finish r =
        Inr (\<forall>x \<in> set (points_along start finish r). ObstacleRtree_obstacle_free T x = Inr True)"
    unfolding ObstacleRtree_collision_free_def by (rule all_map_no_error)
qed

theorem collision_free_conjunction_witness:
  "ObstacleRtree_collision_free es_points_along_line
     \<lparr>obs = \<lparr>dimension = 2, items = [([2, 2, 4, 4], [2, 2, 4, 4])]\<rparr>\<rparr> [0, 3] [1, 3] (1/2)
     = Inr True \<and>
   ObstacleRtree_collision_free es_points_along_line
     \<lparr>obs = \<lparr>dimension = 2, items = [([2, 2, 4, 4], [2, 2, 4, 4])]\<rparr>\<rparr> [1, 3] [2, 3] (1/2)
     = Inr False"
proof -
  let ?T = "\<lparr>obs = \<lparr>dimension = 2, items = [([2, 2, 4, 4], [2, 2, 4, 4 :: real])]\<rparr>\<rparr>"
  have free: "ObstacleRtree_obstacle_free ?T [0, 3] = Inr True"
      "ObstacleRtree_obstacle_free ?T [1/2, 3] = Inr True"
      "ObstacleRtree_obstacle_free ?T [1, 3] = Inr True"
      "ObstacleRtree_obstacle_free ?T [3/2, 3] = Inr True"
    and hit: "ObstacleRtree_obstacle_free ?T [2, 3] = Inr False"
    by (simp_all add: ObstacleRtree_obstacle_free_def Index_count_def rect_contains_def)
  from collision_free_conjunction [of es_points_along_line ?T "[0, 3]" "[1, 3]" "1/2"]
       collision_free_conjunction [of es_points_along_line ?T "[1, 3]" "[2, 3]" "1/2"]
  show ?thesis
    by (simp add: es_outside es_inside free hit)
qed

text \<open>
  C9. Constructed without a list of obstacles, the index is empty: the constructor
  succeeds with no entry, \<^verbatim>\<open>obstacle_free\<close> returns true for every point of the
  dimension the index was given, and \<^verbatim>\<open>collision_free\<close> returns true for every segment
  and resolution whose sample points have that dimension.
\<close>

theorem empty_index_everything_free:
  "ObstacleRtree_init dimen None = Inr \<lparr>obs = \<lparr>dimension = dimen, items = []\<rparr>\<rparr> \<and>
   (int (length x) = dimen \<longrightarrow>
      ObstacleRtree_obstacle_free \<lparr>obs = \<lparr>dimension = dimen, items = []\<rparr>\<rparr> x = Inr True) \<and>
   ((\<forall>x \<in> set (points_along start finish r). int (length x) = dimen) \<longrightarrow>
      ObstacleRtree_collision_free points_along \<lparr>obs = \<lparr>dimension = dimen, items = []\<rparr>\<rparr>
        start finish r = Inr True)"
  by (simp add: ObstacleRtree_init_def ObstacleRtree_collision_free_def all_map_True_iff
        obstacle_free_in_dimension)

theorem empty_index_everything_free_witness:
  "ObstacleRtree_init 2 None = Inr \<lparr>obs = \<lparr>dimension = 2, items = []\<rparr>\<rparr> \<and>
   ObstacleRtree_obstacle_free \<lparr>obs = \<lparr>dimension = 2, items = []\<rparr>\<rparr> [3, 3] = Inr True \<and>
   ObstacleRtree_collision_free es_points_along_line \<lparr>obs = \<lparr>dimension = 2, items = []\<rparr>\<rparr>
     [1, 3] [2, 3] (1/2) = Inr True"
  using empty_index_everything_free [of 2 "[3, 3]" es_points_along_line "[1, 3]" "[2, 3]" "1/2"]
  by (simp add: es_inside)

text \<open>
  C7. For a helper that meets its contract on the segment from a point to itself (a
  sequence that is not empty and whose points lie on the segment), \<^verbatim>\<open>collision_free\<close>
  on that segment returns what \<^verbatim>\<open>obstacle_free\<close> returns on the point, for every
  resolution, a refused query included.
\<close>

theorem collision_free_degenerate:
  assumes "points_along_segment p p r (points_along p p r)"
  shows "ObstacleRtree_collision_free points_along T p p r = ObstacleRtree_obstacle_free T p"
proof -
  have ne: "points_along p p r \<noteq> []"
    using assms by (simp add: points_along_segment_def)
  have "x = p" if "x \<in> set (points_along p p r)" for x
  proof -
    from assms that have "on_segment p p x"
      by (simp add: points_along_segment_def list_all_iff)
    then show ?thesis by (auto simp: on_segment_def segment_point_same)
  qed
  with ne show ?thesis
    unfolding ObstacleRtree_collision_free_def by (rule all_map_constant)
qed

theorem collision_free_degenerate_witness:
  "ObstacleRtree_collision_free es_points_along_line
     \<lparr>obs = \<lparr>dimension = 2, items = [([2, 2, 4, 4], [2, 2, 4, 4])]\<rparr>\<rparr> [3, 3] [3, 3] (1/2)
   = ObstacleRtree_obstacle_free
     \<lparr>obs = \<lparr>dimension = 2, items = [([2, 2, 4, 4], [2, 2, 4, 4])]\<rparr>\<rparr> [3, 3] \<and>
   ObstacleRtree_obstacle_free
     \<lparr>obs = \<lparr>dimension = 2, items = [([2, 2, 4, 4], [2, 2, 4, 4])]\<rparr>\<rparr> [3, 3] = Inr False"
proof -
  have "points_along_segment [3, 3] [3, 3] (1/2) (es_points_along_line [3, 3] [3, 3] (1/2))"
    by (rule es_points_along_line_contract) simp_all
  from collision_free_degenerate [of "[3, 3]" "1/2" es_points_along_line, OF this]
  show ?thesis
    by (simp add: ObstacleRtree_obstacle_free_def Index_count_def rect_contains_def)
qed




end
